theory Spec2Isabelle
  imports Complex_Main "HOL-Library.Word"
begin

section \<open>Data model\<close>

text \<open>
  The pixel store of a canvas is an \<^verbatim>\<open>ImageData\<close>: a width, a height and a flat
  \<^verbatim>\<open>Uint8ClampedArray\<close> holding four bytes (R, G, B, A) per pixel, row-major. The bytes are
  8-bit words. An \<^verbatim>\<open>ImageData\<close> made by the host always has \<open>4 * width * height\<close> bytes,
  with a positive width and height.

  JavaScript numbers are modelled as real numbers. Where the double result of an operation
  decides a stored byte or a returned boolean (the product in the apply loop, the arithmetic
  of \<^verbatim>\<open>needsColorCorrection\<close>), the operation is the exact one followed by the rounding
  \<open>fl\<close> to the nearest double. The illuminant estimate and the scales go through
  \<^verbatim>\<open>Math.pow\<close>, whose result the language leaves to the host, and are kept exact. The
  places where the source can leave the finite numbers (a read past the end of the array, a
  division by zero) are named where they occur.
\<close>

type_synonym byte = "8 word"

record ImageData =
  width :: nat
  height :: nat
  data :: "byte list"

subsection \<open>Double arithmetic\<close>

text \<open>
  Rounding to the nearest integer, a tie to the even one: the rounding of the significand.
\<close>

definition roundHalfEven :: "real \<Rightarrow> int" where
  "roundHalfEven x =
     (let f = \<lfloor>x\<rfloor>; d = x - of_int f
      in if d < 1 / 2 then f else if d > 1 / 2 then f + 1 else if even f then f else f + 1)"

text \<open>
  The binary exponent of a number, not below that of the subnormal doubles, and the rounding
  of a real to the nearest double (IEEE 754 binary64, 53 significant bits, ties to even):
  the nearest multiple of \<open>2 ^ (e - 52)\<close>. A result beyond the largest double is an infinity
  in the source and stays a number here; the only operation of this program that can reach
  it is the product of the apply loop under a gain beyond \<open>10 ^ 305\<close>, and the clamp into
  0..255 that follows gives the same byte for both.
\<close>

definition binade :: "real \<Rightarrow> int" where
  "binade x = max (- 1022) \<lfloor>log 2 \<bar>x\<bar>\<rfloor>"

definition fl :: "real \<Rightarrow> real" where
  "fl x = (if x = 0 then 0
           else of_int (roundHalfEven (x / 2 powi (binade x - 52))) * 2 powi (binade x - 52))"

text \<open>The four operations on doubles: the exact result, rounded.\<close>

definition double_add :: "real \<Rightarrow> real \<Rightarrow> real" where
  "double_add x y = fl (x + y)"

definition double_sub :: "real \<Rightarrow> real \<Rightarrow> real" where
  "double_sub x y = fl (x - y)"

definition double_mul :: "real \<Rightarrow> real \<Rightarrow> real" where
  "double_mul x y = fl (x * y)"

definition double_div :: "real \<Rightarrow> real \<Rightarrow> real" where
  "double_div x y = fl (x / y)"

subsection \<open>Library functions\<close>

text \<open>
  \<^verbatim>\<open>Math.pow(x, y)\<close>: a whole exponent is repeated multiplication (or division), any other
  exponent is the real power of a non-negative base. (A negative base with a fractional
  exponent is NaN in the source; no call of this program does that.)
\<close>

definition Math_pow :: "real \<Rightarrow> real \<Rightarrow> real" where
  "Math_pow x y = (if y = of_int \<lfloor>y\<rfloor> then x powi \<lfloor>y\<rfloor> else x powr y)"

text \<open>\<^verbatim>\<open>Math.round\<close> rounds to the nearest integer, a tie towards plus infinity.\<close>

definition Math_round :: "real \<Rightarrow> int" where
  "Math_round x = \<lfloor>x + 1 / 2\<rfloor>"

text \<open>
  A store into a \<^verbatim>\<open>Uint8ClampedArray\<close> clamps the number into the byte range. A store past
  the end of the array is dropped, which is what \<open>xs[i := v]\<close> does.
\<close>

definition toUint8Clamp :: "int \<Rightarrow> byte" where
  "toUint8Clamp n = word_of_int (min 255 (max 0 n))"

section \<open>watermarkService: makeTransparent\<close>

text \<open>
  \<^verbatim>\<open>dist = Math.sqrt(Math.pow(r - targetColor[0], 2) + Math.pow(g - targetColor[1], 2)
                    + Math.pow(b - targetColor[2], 2))\<close>
\<close>

type_synonym color = "real \<times> real \<times> real"

definition colorDist :: "byte \<Rightarrow> byte \<Rightarrow> byte \<Rightarrow> color \<Rightarrow> real" where
  "colorDist r g b targetColor =
     (case targetColor of (t0, t1, t2) \<Rightarrow>
        sqrt (Math_pow (real (unat r) - t0) 2 +
              Math_pow (real (unat g) - t1) 2 +
              Math_pow (real (unat b) - t2) 2))"

text \<open>
  The loop \<^verbatim>\<open>for (let i = 0; i < data.length; i += 4)\<close> of \<^verbatim>\<open>makeTransparent\<close>. When
  \<open>i + 2\<close> is past the end of the array, \<^verbatim>\<open>g\<close> or \<^verbatim>\<open>b\<close> is \<^verbatim>\<open>undefined\<close>, the distance is
  NaN, the comparison is false and nothing is written.
\<close>

function makeTransparent_loop :: "nat \<Rightarrow> color \<Rightarrow> real \<Rightarrow> byte list \<Rightarrow> byte list" where
  "makeTransparent_loop i targetColor tolerance dat =
     (if i < length dat then
        (if i + 2 < length dat \<and>
            colorDist (dat ! i) (dat ! (i + 1)) (dat ! (i + 2)) targetColor < tolerance
         then makeTransparent_loop (i + 4) targetColor tolerance (dat[i + 3 := 0])
         else makeTransparent_loop (i + 4) targetColor tolerance dat)
      else dat)"
  by pat_completeness auto
termination
  by (relation "measure (\<lambda>(i, targetColor, tolerance, dat). length dat - i)") auto

declare makeTransparent_loop.simps [simp del]

text \<open>
  \<^verbatim>\<open>makeTransparent\<close> reads the pixels of the context (\<^verbatim>\<open>getImageData\<close>), runs the loop and
  writes them back (\<^verbatim>\<open>putImageData\<close>); the context is modelled by the pixels it holds.
\<close>

definition makeTransparent :: "ImageData \<Rightarrow> color \<Rightarrow> real \<Rightarrow> ImageData" where
  "makeTransparent ctx targetColor tolerance =
     ctx\<lparr>data := makeTransparent_loop 0 targetColor tolerance (data ctx)\<rparr>"

text \<open>The pixel whose alpha byte is at index \<open>j\<close> is closer to the key than the tolerance.\<close>

definition keyed :: "byte list \<Rightarrow> color \<Rightarrow> real \<Rightarrow> nat \<Rightarrow> bool" where
  "keyed dat targetColor tolerance j \<longleftrightarrow>
     colorDist (dat ! (j - 3)) (dat ! (j - 2)) (dat ! (j - 1)) targetColor < tolerance"

section \<open>colorCorrectionService: applyShadesOfGray\<close>

definition SHADES_OF_GRAY_NORM :: real where
  "SHADES_OF_GRAY_NORM = 6"

text \<open>
  The first loop: \<^verbatim>\<open>sumR += Math.pow(data[i] / 255, p)\<close>, and the same for G and B at
  \<open>i + 1\<close> and \<open>i + 2\<close>, with \<open>i\<close> going up in steps of four. On an array whose length is
  a multiple of four, as every \<^verbatim>\<open>ImageData\<close> has, the three reads are inside the array.
\<close>

function applyShadesOfGray_sums ::
  "byte list \<Rightarrow> nat \<Rightarrow> real \<Rightarrow> real \<Rightarrow> real \<Rightarrow> real \<times> real \<times> real" where
  "applyShadesOfGray_sums dat i sumR sumG sumB =
     (if i < length dat then
        applyShadesOfGray_sums dat (i + 4)
          (sumR + Math_pow (real (unat (dat ! i)) / 255) SHADES_OF_GRAY_NORM)
          (sumG + Math_pow (real (unat (dat ! (i + 1))) / 255) SHADES_OF_GRAY_NORM)
          (sumB + Math_pow (real (unat (dat ! (i + 2))) / 255) SHADES_OF_GRAY_NORM)
      else (sumR, sumG, sumB))"
  by pat_completeness auto
termination
  by (relation "measure (\<lambda>(dat, i, sumR, sumG, sumB). length dat - i)") auto

declare applyShadesOfGray_sums.simps [simp del]

text \<open>
  The illuminant estimate \<^verbatim>\<open>(avgR, avgG, avgB)\<close>, with \<^verbatim>\<open>pixels = data.length / 4\<close>. (On an
  empty array the source divides zero by zero; an \<^verbatim>\<open>ImageData\<close> is never empty.)
\<close>

definition illuminantEstimate :: "byte list \<Rightarrow> real \<times> real \<times> real" where
  "illuminantEstimate dat =
     (let pixels = real (length dat) / 4;
          p = SHADES_OF_GRAY_NORM
      in case applyShadesOfGray_sums dat 0 0 0 0 of (sumR, sumG, sumB) \<Rightarrow>
           (Math_pow (sumR / pixels) (1 / p),
            Math_pow (sumG / pixels) (1 / p),
            Math_pow (sumB / pixels) (1 / p)))"

text \<open>
  The estimate as the specification words it: the values of one channel (offset 0, 1 or 2) over
  all pixels, and the Minkowski mean of a list of channel values with exponent \<open>p\<close>: divide
  by 255, raise to the power \<open>p\<close>, average, take the \<open>p\<close>-th root.
\<close>

definition channelValues :: "byte list \<Rightarrow> nat \<Rightarrow> real list" where
  "channelValues dat c = map (\<lambda>k. real (unat (dat ! (4 * k + c)))) [0..<length dat div 4]"

definition minkowskiMean :: "nat \<Rightarrow> real list \<Rightarrow> real" where
  "minkowskiMean p xs = root p ((\<Sum>x\<leftarrow>xs. (x / 255) ^ p) / real (length xs))"

text \<open>The gray target, the three scales and their clamping.\<close>

definition clampedScales :: "real \<times> real \<times> real \<Rightarrow> real \<times> real \<times> real" where
  "clampedScales est =
     (case est of (avgR, avgG, avgB) \<Rightarrow>
        let grayTarget = (avgR + avgG + avgB) / 3;
            scaleR = (if avgR > 0.01 then grayTarget / avgR else 1);
            scaleG = (if avgG > 0.01 then grayTarget / avgG else 1);
            scaleB = (if avgB > 0.01 then grayTarget / avgB else 1);
            maxCorrection = 1.5;
            minCorrection = 0.6
        in (max minCorrection (min maxCorrection scaleR),
            max minCorrection (min maxCorrection scaleG),
            max minCorrection (min maxCorrection scaleB)))"

text \<open>
  One assignment of the second loop:
  \<^verbatim>\<open>data[j] = Math.min(255, Math.max(0, Math.round(data[j] * scale)))\<close>. The product is
  the double product, which \<^verbatim>\<open>Math.round\<close> then rounds to an integer. When \<open>j\<close> is past
  the end of the array the store is dropped, whatever was read.
\<close>

definition correctedValue :: "byte \<Rightarrow> real \<Rightarrow> int" where
  "correctedValue v scale = min 255 (max 0 (Math_round (double_mul (real (unat v)) scale)))"

definition correctChannel :: "byte list \<Rightarrow> nat \<Rightarrow> real \<Rightarrow> byte list" where
  "correctChannel dat j scale = dat[j := toUint8Clamp (correctedValue (dat ! j) scale)]"

function applyShadesOfGray_apply ::
  "real \<Rightarrow> real \<Rightarrow> real \<Rightarrow> nat \<Rightarrow> byte list \<Rightarrow> byte list" where
  "applyShadesOfGray_apply clampedScaleR clampedScaleG clampedScaleB i dat =
     (if i < length dat then
        applyShadesOfGray_apply clampedScaleR clampedScaleG clampedScaleB (i + 4)
          (correctChannel
             (correctChannel (correctChannel dat i clampedScaleR) (i + 1) clampedScaleG)
             (i + 2) clampedScaleB)
      else dat)"
  by pat_completeness auto
termination
  by (relation "measure (\<lambda>(cR, cG, cB, i, dat). length dat - i)")
     (auto simp: correctChannel_def)

declare applyShadesOfGray_apply.simps [simp del]

text \<open>The channel scale that the loop uses at byte index \<open>j\<close> (R, G, B at 0, 1, 2 modulo 4).\<close>

definition channelScale :: "real \<Rightarrow> real \<Rightarrow> real \<Rightarrow> nat \<Rightarrow> real" where
  "channelScale cR cG cB j = (if j mod 4 = 0 then cR else if j mod 4 = 1 then cG else cB)"

text \<open>The apply stage: the second loop run over the whole array with the given scales.\<close>

definition applyGains :: "real \<times> real \<times> real \<Rightarrow> ImageData \<Rightarrow> ImageData" where
  "applyGains gains imageData =
     (case gains of (clampedScaleR, clampedScaleG, clampedScaleB) \<Rightarrow>
        imageData\<lparr>data :=
          applyShadesOfGray_apply clampedScaleR clampedScaleG clampedScaleB 0
            (data imageData)\<rparr>)"

definition applyShadesOfGray :: "ImageData \<Rightarrow> ImageData" where
  "applyShadesOfGray imageData =
     applyGains (clampedScales (illuminantEstimate (data imageData))) imageData"

section \<open>colorCorrectionService: needsColorCorrection\<close>

text \<open>Promises: resolved with a value, rejected with a message, or never settled.\<close>

datatype 'a promise = Resolved 'a | Rejected string | Pending

text \<open>
  The loop \<^verbatim>\<open>avgR += data[i]; avgG += data[i + 1]; avgB += data[i + 2]\<close>, followed by the
  division of each sum by \<^verbatim>\<open>pixels = data.length / 4\<close>; additions and divisions are the
  double ones. The sample always has 100 * 100 pixels.
\<close>

function needsColorCorrection_sums ::
  "byte list \<Rightarrow> nat \<Rightarrow> real \<Rightarrow> real \<Rightarrow> real \<Rightarrow> real \<times> real \<times> real" where
  "needsColorCorrection_sums dat i avgR avgG avgB =
     (if i < length dat then
        needsColorCorrection_sums dat (i + 4)
          (double_add avgR (real (unat (dat ! i))))
          (double_add avgG (real (unat (dat ! (i + 1)))))
          (double_add avgB (real (unat (dat ! (i + 2)))))
      else (avgR, avgG, avgB))"
  by pat_completeness auto
termination
  by (relation "measure (\<lambda>(dat, i, avgR, avgG, avgB). length dat - i)") auto

declare needsColorCorrection_sums.simps [simp del]

definition channelMeans :: "byte list \<Rightarrow> real \<times> real \<times> real" where
  "channelMeans dat =
     (let pixels = double_div (real (length dat)) 4
      in case needsColorCorrection_sums dat 0 0 0 0 of (avgR, avgG, avgB) \<Rightarrow>
           (double_div avgR pixels, double_div avgG pixels, double_div avgB pixels))"

text \<open>The arithmetic mean of a list of channel values, as the specification words it.\<close>

definition arithmeticMean :: "real list \<Rightarrow> real" where
  "arithmeticMean xs = sum_list xs / real (length xs)"

text \<open>
  The test on the three means. Every operation is the double one; the literal \<^verbatim>\<open>0.15\<close> is
  the double nearest to 0.15; \<^verbatim>\<open>Math.abs\<close> and the comparisons are exact.
\<close>

definition hasColorCast :: "real \<times> real \<times> real \<Rightarrow> bool" where
  "hasColorCast means =
     (case means of (avgR, avgG, avgB) \<Rightarrow>
        let overallAvg = double_div (double_add (double_add avgR avgG) avgB) 3;
            threshold = double_mul overallAvg (fl 0.15)
        in \<bar>double_sub avgR overallAvg\<bar> > threshold \<or>
           \<bar>double_sub avgG overallAvg\<bar> > threshold \<or>
           \<bar>double_sub avgB overallAvg\<bar> > threshold)"

text \<open>
  What the host does during one call of \<^verbatim>\<open>needsColorCorrection\<close>, in the order of the
  source: \<^verbatim>\<open>getContext('2d')\<close> returns null; or the reader fires \<^verbatim>\<open>onerror\<close>; or the reader
  loads and the image fires \<^verbatim>\<open>onerror\<close>; or the image loads, is drawn into the 100 by 100
  canvas, and \<^verbatim>\<open>getImageData(0, 0, 100, 100)\<close> returns the given sample.
\<close>

datatype analysisRun =
    ContextNull
  | ReaderError
  | ImageError
  | ImageLoad "byte list"

fun needsColorCorrection :: "analysisRun \<Rightarrow> bool promise" where
  "needsColorCorrection ContextNull = Resolved False"
| "needsColorCorrection ReaderError = Resolved False"
| "needsColorCorrection ImageError = Resolved False"
| "needsColorCorrection (ImageLoad dat) = Resolved (hasColorCast (channelMeans dat))"

section \<open>watermarkService: addWatermark\<close>

text \<open>
  The main canvas is modelled by its size, the state of its 2D context that the source sets,
  and the drawing calls made on it, in order, each with the context state it was made under.
\<close>

record font =
  fontStyle :: string
  fontSizePx :: int
  fontFamilies :: "string list"

datatype drawCall =
    DrawImage ImageData real real real
  | DrawImageScaled ImageData real real real real real
  | FillText string real real font "real \<times> real \<times> real \<times> real" string string

record context2d =
  canvasWidth :: nat
  canvasHeight :: nat
  globalAlpha :: real
  ctxFont :: font
  fillStyle :: "real \<times> real \<times> real \<times> real"
  textAlign :: string
  textBaseline :: string
  drawn :: "drawCall list"

text \<open>A fresh canvas of the given size, with the defaults of a 2D context.\<close>

definition newCanvas :: "nat \<Rightarrow> nat \<Rightarrow> context2d" where
  "newCanvas w h =
     \<lparr>canvasWidth = w, canvasHeight = h, globalAlpha = 1,
      ctxFont = \<lparr>fontStyle = ''normal'', fontSizePx = 10, fontFamilies = [''sans-serif'']\<rparr>,
      fillStyle = (0, 0, 0, 1), textAlign = ''start'', textBaseline = ''alphabetic'',
      drawn = []\<rparr>"

definition drawImage :: "ImageData \<Rightarrow> real \<Rightarrow> real \<Rightarrow> context2d \<Rightarrow> context2d" where
  "drawImage img dx dy ctx = ctx\<lparr>drawn := drawn ctx @ [DrawImage img dx dy (globalAlpha ctx)]\<rparr>"

definition drawImageScaled ::
  "ImageData \<Rightarrow> real \<Rightarrow> real \<Rightarrow> real \<Rightarrow> real \<Rightarrow> context2d \<Rightarrow> context2d" where
  "drawImageScaled img dx dy dw dh ctx =
     ctx\<lparr>drawn := drawn ctx @ [DrawImageScaled img dx dy dw dh (globalAlpha ctx)]\<rparr>"

definition fillText :: "string \<Rightarrow> real \<Rightarrow> real \<Rightarrow> context2d \<Rightarrow> context2d" where
  "fillText text x y ctx =
     ctx\<lparr>drawn := drawn ctx @
       [FillText text x y (ctxFont ctx) (fillStyle ctx) (textAlign ctx) (textBaseline ctx)]\<rparr>"

text \<open>
  The body of \<^verbatim>\<open>logoImg.onload\<close> after the logo canvas has its context: the logo is drawn
  into its own canvas, keyed, scaled and drawn onto the main canvas.
\<close>

definition logoOnload :: "ImageData \<Rightarrow> ImageData \<Rightarrow> context2d \<Rightarrow> context2d" where
  "logoOnload mainImg logoImg ctx =
     (let logoCanvas = makeTransparent logoImg (240, 230, 74) 100;
          scale = (real (width mainImg) * 0.15) / real (width logoImg);
          logoW = real (width logoImg) * scale;
          logoH = real (height logoImg) * scale;
          padding = real (width mainImg) * 0.03;
          x = real (canvasWidth ctx) - logoW - padding;
          y = real (canvasHeight ctx) - logoH - padding;
          ctx1 = ctx\<lparr>globalAlpha := 0.8\<rparr>;
          ctx2 = drawImageScaled logoCanvas x y logoW logoH ctx1
      in ctx2\<lparr>globalAlpha := 1.0\<rparr>)"

text \<open>The body of \<^verbatim>\<open>logoImg.onerror\<close>: the text watermark.\<close>

definition logoOnerror :: "ImageData \<Rightarrow> string \<Rightarrow> context2d \<Rightarrow> context2d" where
  "logoOnerror mainImg watermarkText ctx =
     (let fontSize = max 16 \<lfloor>real (width mainImg) * 0.05\<rfloor>;
          ctx1 = ctx\<lparr>ctxFont := \<lparr>fontStyle = ''italic'', fontSizePx = fontSize,
                                  fontFamilies = [''Playfair Display'', ''serif'']\<rparr>\<rparr>;
          ctx2 = ctx1\<lparr>fillStyle := (255, 69, 0, 0.7)\<rparr>;
          ctx3 = ctx2\<lparr>textAlign := ''right''\<rparr>;
          ctx4 = ctx3\<lparr>textBaseline := ''bottom''\<rparr>;
          padding = real_of_int fontSize
      in fillText watermarkText (real (canvasWidth ctx4) - padding)
           (real (canvasHeight ctx4) - padding) ctx4)"

text \<open>
  What the host does during one call of \<^verbatim>\<open>addWatermark\<close>, in the order of the source:
  the main image fires \<^verbatim>\<open>onerror\<close>; or it loads and \<^verbatim>\<open>getContext('2d')\<close> of the main canvas
  returns null; or the logo fires \<^verbatim>\<open>onerror\<close>; or the logo loads and \<^verbatim>\<open>getContext('2d')\<close>
  of the logo canvas returns null; or the logo loads and its canvas has a context. A loaded
  image is given by its decoded pixels.
\<close>

datatype watermarkRun =
    MainError
  | MainContextNull ImageData
  | LogoError ImageData
  | LogoContextNull ImageData ImageData
  | LogoLoad ImageData ImageData

text \<open>
  \<^verbatim>\<open>addWatermark\<close> resolves with \<^verbatim>\<open>canvas.toDataURL('image/png')\<close>; the encoder is the
  host's, so the model resolves with the canvas that is encoded. With a logo of width or
  height zero, \<^verbatim>\<open>getImageData\<close> inside \<^verbatim>\<open>makeTransparent\<close> raises, the handler stops and
  the promise is never settled.
\<close>

fun addWatermark :: "watermarkRun \<Rightarrow> string \<Rightarrow> context2d promise" where
  "addWatermark MainError watermarkText =
     Rejected ''Failed to load image for watermarking''"
| "addWatermark (MainContextNull mainImg) watermarkText =
     Rejected ''Could not get canvas context''"
| "addWatermark (LogoError mainImg) watermarkText =
     Resolved (logoOnerror mainImg watermarkText
       (drawImage mainImg 0 0 (newCanvas (width mainImg) (height mainImg))))"
| "addWatermark (LogoContextNull mainImg logoImg) watermarkText = Pending"
| "addWatermark (LogoLoad mainImg logoImg) watermarkText =
     (if width logoImg = 0 \<or> height logoImg = 0 then Pending
      else Resolved (logoOnload mainImg logoImg
        (drawImage mainImg 0 0 (newCanvas (width mainImg) (height mainImg)))))"

text \<open>
  A sample of ten pixels, one (23, 20, 17) and nine black: its channel means are those of a
  100 by 100 sample with a thousand such pixels on black, 2.3, 2 and 1.7.
\<close>

definition boundarySample :: "byte list" where
  "boundarySample =
     [23, 20, 17, 255, 0, 0, 0, 255, 0, 0, 0, 255, 0, 0, 0, 255, 0, 0, 0, 255,
      0, 0, 0, 255, 0, 0, 0, 255, 0, 0, 0, 255, 0, 0, 0, 255, 0, 0, 0, 255]"

text \<open>A two by two photograph and a two by one logo whose first pixel has the key colour.\<close>

definition exampleMain :: ImageData where
  "exampleMain = \<lparr>width = 2, height = 2,
     data = [200, 100, 50, 255, 210, 90, 40, 255, 190, 110, 60, 255, 205, 95, 45, 255]\<rparr>"

definition exampleLogo :: ImageData where
  "exampleLogo = \<lparr>width = 2, height = 1, data = [240, 230, 74, 255, 0, 0, 0, 255]\<rparr>"

section \<open>Properties of the double rounding\<close>

lemma roundHalfEven_of_int: "roundHalfEven (of_int m) = m"
  by (simp add: roundHalfEven_def)

text \<open>
  The rounding of a number whose binary exponent \<open>e\<close> is known: this is how \<open>fl\<close> is
  evaluated at a given number.
\<close>

lemma binade_eq:
  assumes "2 powi e \<le> \<bar>x\<bar>" "\<bar>x\<bar> < 2 powi (e + 1)" "- 1022 \<le> e"
  shows "binade x = e"
proof -
  have pos: "0 < \<bar>x\<bar>"
    using assms(1) zero_less_power_int[of "2::real" e] by linarith
  have "(2::real) powr real_of_int e \<le> \<bar>x\<bar>" "\<bar>x\<bar> < (2::real) powr (real_of_int e + 1)"
    using assms(1,2) powr_real_of_int'[of "2::real" e] powr_real_of_int'[of "2::real" "e + 1"]
    by simp_all
  then have "\<lfloor>log 2 \<bar>x\<bar>\<rfloor> = e"
    using floor_log_eq_powr_iff[of "\<bar>x\<bar>" 2 e] pos by simp
  then show ?thesis
    using assms(3) by (simp add: binade_def)
qed

lemma fl_eq:
  assumes "2 powi e \<le> \<bar>x\<bar>" "\<bar>x\<bar> < 2 powi (e + 1)" "- 1022 \<le> e"
  shows "fl x = of_int (roundHalfEven (x / 2 powi (e - 52))) * 2 powi (e - 52)"
proof -
  have "0 < (2::real) powi e"
    by simp
  then have "0 < \<bar>x\<bar>"
    using assms(1) by linarith
  then have "x \<noteq> 0"
    by simp
  then show ?thesis
    by (simp add: fl_def binade_eq[OF assms])
qed

lemma fl_0: "fl 0 = 0"
  by (simp add: fl_def)

text \<open>Integers below \<open>2 ^ 53\<close> are doubles.\<close>

lemma fl_of_int:
  assumes "\<bar>m\<bar> < 2 ^ 53"
  shows "fl (of_int m) = of_int m"
proof (cases "m = 0")
  case True
  then show ?thesis by (simp add: fl_0)
next
  case False
  define e where "e = \<lfloor>log 2 \<bar>real_of_int m\<bar>\<rfloor>"
  have "1 \<le> \<bar>m\<bar>"
    using False by simp
  then have "real_of_int 1 \<le> real_of_int \<bar>m\<bar>"
    by (simp only: of_int_le_iff)
  then have pos: "1 \<le> \<bar>real_of_int m\<bar>"
    by simp
  then have e0: "0 \<le> e"
    unfolding e_def by simp
  have b: "(2::real) powr real_of_int e \<le> \<bar>real_of_int m\<bar>"
       "\<bar>real_of_int m\<bar> < (2::real) powr (real_of_int e + 1)"
    using floor_log_eq_powr_iff[of "\<bar>real_of_int m\<bar>" 2 e] pos e_def by simp_all
  have be: "binade (of_int m) = e"
    using e0 by (simp add: binade_def e_def)
  have p53: "(2::real) powr 53 = 2 ^ 53"
    by simp
  have "\<bar>real_of_int m\<bar> < 2 ^ 53"
    using assms by (metis of_int_abs of_int_less_iff of_int_numeral of_int_power)
  then have "(2::real) powr real_of_int e < 2 powr 53"
    using b(1) unfolding p53 by linarith
  then have "real_of_int e < 53"
    using powr_less_cancel_iff[of "2::real" "real_of_int e" 53] by linarith
  then have e52: "e \<le> 52"
    by linarith
  define k where "k = nat (52 - e)"
  have q: "(2::real) powi (e - 52) = 1 / 2 ^ k"
    using e52 by (simp add: k_def power_int_def field_simps)
  have "real_of_int m / (2 powi (e - 52)) = of_int (m * 2 ^ k)"
    by (simp add: q)
  then have "roundHalfEven (real_of_int m / (2 powi (e - 52))) = m * 2 ^ k"
    by (simp only: roundHalfEven_of_int)
  then show ?thesis
    using False by (simp add: fl_def be q)
qed

lemma fl_of_nat: "n < 2 ^ 53 \<Longrightarrow> fl (real n) = real n"
  using fl_of_int[of "int n"] by simp

text \<open>The doubles nearest to 0.7 and to 0.15.\<close>

lemma fl_7_10: "fl (7 / 10) = 6305039478318694 / 2 ^ 53"
  using fl_eq[of "-1" "7 / 10"] by (simp add: roundHalfEven_def Let_def)

lemma fl_15_100: "fl 0.15 = 5404319552844595 / 2 ^ 55"
  using fl_eq[of "-3" "0.15"] by (simp add: roundHalfEven_def Let_def)

section \<open>Properties of makeTransparent\<close>

lemma Math_pow_2: "Math_pow x 2 = x\<^sup>2"
  by (simp add: Math_pow_def power_int_def)

lemma length_makeTransparent_loop:
  "length (makeTransparent_loop i tc tol dat) = length dat"
proof (induction i tc tol dat rule: makeTransparent_loop.induct)
  case (1 i tc tol dat)
  show ?case
    using "1.IH" by (subst makeTransparent_loop.simps) (simp split: if_splits)
qed

lemma makeTransparent_loop_nth:
  "i mod 4 = 0 \<Longrightarrow> j < length dat \<Longrightarrow>
   makeTransparent_loop i tc tol dat ! j =
     (if i \<le> j \<and> j mod 4 = 3 \<and> keyed dat tc tol j then 0 else dat ! j)"
proof (induction i tc tol dat rule: makeTransparent_loop.induct)
  case (1 i tc tol dat)
  have far: "i + 4 \<le> j \<Longrightarrow> j mod 4 = 3 \<Longrightarrow> i + 7 \<le> j"
    using "1.prems"(1) by presburger
  have m3: "(i + 3) mod 4 = 3"
    using "1.prems"(1) by presburger
  show ?case
  proof (cases "i < length dat")
    case False
    then show ?thesis
      using "1.prems" by (subst makeTransparent_loop.simps) simp
  next
    case inb: True
    show ?thesis
    proof (cases "i + 2 < length dat \<and>
        colorDist (dat ! i) (dat ! (i + 1)) (dat ! (i + 2)) tc < tol")
      case True
      have k: "keyed (dat[i + 3 := 0]) tc tol j = keyed dat tc tol j" if "i + 7 \<le> j"
        using that by (simp add: keyed_def)
      have "makeTransparent_loop i tc tol dat ! j =
            makeTransparent_loop (i + 4) tc tol (dat[i + 3 := 0]) ! j"
        using inb True by (subst makeTransparent_loop.simps) simp
      also have "\<dots> = (if i + 4 \<le> j \<and> j mod 4 = 3 \<and> keyed (dat[i + 3 := 0]) tc tol j
                        then 0 else dat[i + 3 := 0] ! j)"
        using "1.IH"(1)[OF inb True] "1.prems" by simp
      also have "\<dots> = (if i \<le> j \<and> j mod 4 = 3 \<and> keyed dat tc tol j then 0 else dat ! j)"
      proof (cases "j = i + 3")
        case True
        then show ?thesis using \<open>i + 2 < length dat \<and> _\<close> "1.prems" m3
          by (simp add: keyed_def)
      next
        case False
        then show ?thesis using far k "1.prems"(1)
          by (auto simp: nth_list_update) presburger+
      qed
      finally show ?thesis .
    next
      case False
      have "makeTransparent_loop i tc tol dat ! j =
            makeTransparent_loop (i + 4) tc tol dat ! j"
        using inb False by (subst makeTransparent_loop.simps) auto
      also have "\<dots> = (if i + 4 \<le> j \<and> j mod 4 = 3 \<and> keyed dat tc tol j
                        then 0 else dat ! j)"
        using "1.IH"(2)[OF inb False] "1.prems" by simp
      also have "\<dots> = (if i \<le> j \<and> j mod 4 = 3 \<and> keyed dat tc tol j then 0 else dat ! j)"
      proof (cases "j = i + 3")
        case True
        then show ?thesis using False "1.prems" m3
          by (auto simp: keyed_def)
      next
        case False
        then show ?thesis using far "1.prems"(1)
          by auto presburger+
      qed
      finally show ?thesis .
    qed
  qed
qed

lemma mod4_3_cases:
  fixes j :: nat
  assumes "j mod 4 = 3"
  shows "(j - 3) mod 4 = 0" "(j - 2) mod 4 = 1" "(j - 1) mod 4 = 2" "3 \<le> j"
proof -
  obtain q where q: "j = 4 * q + 3"
    using assms by (metis mod_mult_div_eq add.commute mult.commute)
  have e: "j - 3 = 4 * q" "j - 2 = 4 * q + 1" "j - 1 = 4 * q + 2"
    unfolding q by simp_all
  show "(j - 3) mod 4 = 0" "(j - 2) mod 4 = 1" "(j - 1) mod 4 = 2"
    unfolding e by (simp_all only: mod_mult_self4 mod_mult_self1_is_0) simp_all
  show "3 \<le> j"
    unfolding q by simp
qed


lemma keyed_makeTransparent_loop:
  assumes "j mod 4 = 3" "j < length dat"
  shows "keyed (makeTransparent_loop 0 tc tol dat) tc tol j = keyed dat tc tol j"
proof -
  have a: "(j - 3) mod 4 \<noteq> 3" "(j - 2) mod 4 \<noteq> 3" "(j - 1) mod 4 \<noteq> 3"
    using mod4_3_cases[OF assms(1)] by simp_all
  have b: "j - 3 < length dat" "j - 2 < length dat" "j - 1 < length dat"
    using assms(2) by simp_all
  show ?thesis
    unfolding keyed_def using a b by (simp add: makeTransparent_loop_nth)
qed

text \<open>
  Claim C4. The chroma-key removal is idempotent: for every bitmap, target colour and
  tolerance, running \<^verbatim>\<open>makeTransparent\<close> twice with the same key and tolerance gives the
  same bitmap as running it once.
\<close>

theorem makeTransparent_idempotent:
  "makeTransparent (makeTransparent img targetColor tolerance) targetColor tolerance =
   makeTransparent img targetColor tolerance"
proof -
  let ?d = "data img"
  let ?d1 = "makeTransparent_loop 0 targetColor tolerance ?d"
  have "makeTransparent_loop 0 targetColor tolerance ?d1 = ?d1"
  proof (rule nth_equalityI)
    show "length (makeTransparent_loop 0 targetColor tolerance ?d1) = length ?d1"
      by (simp add: length_makeTransparent_loop)
  next
    fix j
    assume "j < length (makeTransparent_loop 0 targetColor tolerance ?d1)"
    then have j: "j < length ?d"
      by (simp add: length_makeTransparent_loop)
    then have j1: "j < length ?d1"
      by (simp add: length_makeTransparent_loop)
    show "makeTransparent_loop 0 targetColor tolerance ?d1 ! j = ?d1 ! j"
    proof (cases "j mod 4 = 3")
      case True
      then show ?thesis
        using j j1 keyed_makeTransparent_loop[of j ?d targetColor tolerance]
        by (simp add: makeTransparent_loop_nth)
    next
      case False
      then show ?thesis
        using j j1 by (simp add: makeTransparent_loop_nth)
    qed
  qed
  then show ?thesis
    by (simp add: makeTransparent_def)
qed

text \<open>
  Claim C5. For every pixel \<open>k\<close> of the bitmap, \<^verbatim>\<open>makeTransparent\<close> leaves R, G and B as
  they are; it sets alpha to 0 when the Euclidean distance between the pixel's (R, G, B) and
  the key colour is strictly below the tolerance, and leaves alpha as it is otherwise.
\<close>

theorem makeTransparent_pixel:
  assumes "4 * k + 3 < length (data img)"
  shows "data (makeTransparent img (kr, kg, kb) tolerance) ! (4 * k) = data img ! (4 * k) \<and>
         data (makeTransparent img (kr, kg, kb) tolerance) ! (4 * k + 1) = data img ! (4 * k + 1) \<and>
         data (makeTransparent img (kr, kg, kb) tolerance) ! (4 * k + 2) = data img ! (4 * k + 2) \<and>
         data (makeTransparent img (kr, kg, kb) tolerance) ! (4 * k + 3) =
           (if sqrt ((real (unat (data img ! (4 * k))) - kr)\<^sup>2 +
                     (real (unat (data img ! (4 * k + 1))) - kg)\<^sup>2 +
                     (real (unat (data img ! (4 * k + 2))) - kb)\<^sup>2) < tolerance
            then 0 else data img ! (4 * k + 3))"
proof -
  have m: "(4 * k) mod 4 = 0" "(4 * k + 1) mod 4 = 1" "(4 * k + 2) mod 4 = 2"
    "(4 * k + 3) mod 4 = 3"
    by (simp_all only: mod_mult_self4 mod_mult_self1_is_0) simp_all
  have l: "4 * k < length (data img)" "4 * k + 1 < length (data img)"
    "4 * k + 2 < length (data img)"
    using assms by simp_all
  have k: "keyed (data img) (kr, kg, kb) tolerance (4 * k + 3) \<longleftrightarrow>
        sqrt ((real (unat (data img ! (4 * k))) - kr)\<^sup>2 +
              (real (unat (data img ! (4 * k + 1))) - kg)\<^sup>2 +
              (real (unat (data img ! (4 * k + 2))) - kb)\<^sup>2) < tolerance"
    by (simp add: keyed_def colorDist_def Math_pow_2)
  show ?thesis
    using m l assms k by (simp add: makeTransparent_def makeTransparent_loop_nth)
qed

text \<open>A two-pixel bitmap: the first pixel has the key colour and loses its alpha.\<close>

theorem makeTransparent_pixel_witness:
  "4 * 0 + 3 < length (data \<lparr>width = 2, height = 1, data = [240, 230, 74, 255, 0, 0, 0, 255]\<rparr>) \<and>
   data (makeTransparent \<lparr>width = 2, height = 1, data = [240, 230, 74, 255, 0, 0, 0, 255]\<rparr>
           (240, 230, 74) 100) ! 3 = 0 \<and>
   data (makeTransparent \<lparr>width = 2, height = 1, data = [240, 230, 74, 255, 0, 0, 0, 255]\<rparr>
           (240, 230, 74) 100) ! 0 = 240"
  using makeTransparent_pixel [of 0 "\<lparr>width = 2, height = 1, data = [240, 230, 74, 255, 0, 0, 0, 255]\<rparr>" 240 230 74 100]
  by simp

section \<open>Properties of the apply stage\<close>

lemma uint_toUint8Clamp: "uint (toUint8Clamp n) = min 255 (max 0 n)"
proof -
  have "0 \<le> min 255 (max 0 n)" "min 255 (max 0 n) < 2 ^ LENGTH(8)"
    by simp_all
  then show ?thesis
    unfolding toUint8Clamp_def by (simp only: uint_word_of_int mod_pos_pos_trivial)
qed

lemma correctedValue_range: "0 \<le> correctedValue v c \<and> correctedValue v c \<le> 255"
  by (simp add: correctedValue_def)

lemma uint_corrected: "uint (toUint8Clamp (correctedValue v c)) = correctedValue v c"
  using correctedValue_range[of v c] by (simp add: uint_toUint8Clamp)

lemma length_correctChannel: "length (correctChannel dat j c) = length dat"
  by (simp add: correctChannel_def)

lemma length_applyShadesOfGray_apply:
  "length (applyShadesOfGray_apply cR cG cB i dat) = length dat"
proof (induction cR cG cB i dat rule: applyShadesOfGray_apply.induct)
  case (1 cR cG cB i dat)
  show ?case
    using "1.IH"
    by (subst applyShadesOfGray_apply.simps) (simp add: length_correctChannel)
qed

lemma pixel_step_nth:
  assumes "i mod 4 = 0"
  shows "correctChannel (correctChannel (correctChannel dat i cR) (i + 1) cG) (i + 2) cB ! j =
     (if i \<le> j \<and> j < i + 3 \<and> j < length dat
      then toUint8Clamp (correctedValue (dat ! j) (channelScale cR cG cB j)) else dat ! j)"
proof -
  have m: "(i + 1) mod 4 = 1" "(i + 2) mod 4 = 2"
    using assms by presburger+
  consider "j = i" | "j = i + 1" | "j = i + 2" | "j < i \<or> i + 3 \<le> j"
    by linarith
  then show ?thesis
  proof cases
    case 1
    then show ?thesis using assms
      by (cases "j < length dat")
         (simp_all add: correctChannel_def channelScale_def nth_list_update list_update_beyond)
  next
    case 2
    then show ?thesis using m
      by (cases "j < length dat")
         (simp_all add: correctChannel_def channelScale_def nth_list_update list_update_beyond)
  next
    case 3
    then show ?thesis using m
      by (cases "j < length dat")
         (simp_all add: correctChannel_def channelScale_def nth_list_update list_update_beyond)
  next
    case 4
    then show ?thesis
      by (auto simp add: correctChannel_def nth_list_update list_update_beyond)
  qed
qed

lemma applyShadesOfGray_apply_nth:
  "i mod 4 = 0 \<Longrightarrow> j < length dat \<Longrightarrow>
   applyShadesOfGray_apply cR cG cB i dat ! j =
     (if i \<le> j \<and> j mod 4 \<noteq> 3
      then toUint8Clamp (correctedValue (dat ! j) (channelScale cR cG cB j)) else dat ! j)"
proof (induction cR cG cB i dat rule: applyShadesOfGray_apply.induct)
  case (1 cR cG cB i dat)
  let ?d = "correctChannel (correctChannel (correctChannel dat i cR) (i + 1) cG) (i + 2) cB"
  show ?case
  proof (cases "i < length dat")
    case False
    then show ?thesis
      using "1.prems" by (subst applyShadesOfGray_apply.simps) simp
  next
    case True
    have i4: "(i + 4) mod 4 = 0"
      using "1.prems"(1) by simp
    have len: "j < length ?d"
      using "1.prems"(2) by (simp add: length_correctChannel)
    have m3: "(i + 3) mod 4 = 3"
      using "1.prems"(1) by presburger
    have "applyShadesOfGray_apply cR cG cB i dat ! j =
          applyShadesOfGray_apply cR cG cB (i + 4) ?d ! j"
      using True by (subst applyShadesOfGray_apply.simps) simp
    also have "\<dots> = (if i + 4 \<le> j \<and> j mod 4 \<noteq> 3
        then toUint8Clamp (correctedValue (?d ! j) (channelScale cR cG cB j)) else ?d ! j)"
      using "1.IH"[OF True i4 len] .
    also have "\<dots> = (if i \<le> j \<and> j mod 4 \<noteq> 3
        then toUint8Clamp (correctedValue (dat ! j) (channelScale cR cG cB j)) else dat ! j)"
    proof -
      note st = pixel_step_nth[OF "1.prems"(1), of dat cR cG cB j]
      consider "j < i" | "i \<le> j \<and> j < i + 3" | "j = i + 3" | "i + 4 \<le> j"
        by linarith
      then show ?thesis
      proof cases
        case 1
        then show ?thesis using st
          by simp
      next
        case 2
        then have "j mod 4 \<noteq> 3"
          using "1.prems"(1) by presburger
        then show ?thesis using 2 "1.prems"(2) st
          by simp
      next
        case 3
        then show ?thesis using m3 st
          by simp
      next
        case 4
        then show ?thesis using st
          by simp
      qed
    qed
    finally show ?thesis .
  qed
qed


text \<open>
  Claim C1. For every bitmap and every gain vector, the apply stage writes each of R, G, B of
  every pixel \<open>k\<close> as the product of the old value and the channel gain (the double product,
  as the source computes it), rounded to the nearest integer and clamped into 0..255: no
  output channel lies outside 0..255, alpha is the input alpha, and the array length, the
  width and the height of the bitmap are unchanged.
\<close>

theorem applyGains_pixel:
  assumes "4 * k + 3 < length (data img)"
  shows "uint (data (applyGains (gR, gG, gB) img) ! (4 * k)) =
           min 255 (max 0 (round (double_mul (real (unat (data img ! (4 * k)))) gR))) \<and>
         uint (data (applyGains (gR, gG, gB) img) ! (4 * k + 1)) =
           min 255 (max 0 (round (double_mul (real (unat (data img ! (4 * k + 1)))) gG))) \<and>
         uint (data (applyGains (gR, gG, gB) img) ! (4 * k + 2)) =
           min 255 (max 0 (round (double_mul (real (unat (data img ! (4 * k + 2)))) gB))) \<and>
         uint (data (applyGains (gR, gG, gB) img) ! (4 * k)) \<in> {0..255} \<and>
         uint (data (applyGains (gR, gG, gB) img) ! (4 * k + 1)) \<in> {0..255} \<and>
         uint (data (applyGains (gR, gG, gB) img) ! (4 * k + 2)) \<in> {0..255} \<and>
         data (applyGains (gR, gG, gB) img) ! (4 * k + 3) = data img ! (4 * k + 3) \<and>
         length (data (applyGains (gR, gG, gB) img)) = length (data img) \<and>
         width (applyGains (gR, gG, gB) img) = width img \<and>
         height (applyGains (gR, gG, gB) img) = height img \<and>
         width (applyShadesOfGray img) = width img \<and>
         height (applyShadesOfGray img) = height img"
proof -
  let ?out = "applyShadesOfGray_apply gR gG gB 0 (data img)"
  have m: "(4 * k) mod 4 = 0" "(4 * k + 1) mod 4 = 1" "(4 * k + 2) mod 4 = 2"
    "(4 * k + 3) mod 4 = 3"
    by (simp_all only: mod_mult_self4 mod_mult_self1_is_0) simp_all
  have l: "4 * k < length (data img)" "4 * k + 1 < length (data img)"
    "4 * k + 2 < length (data img)"
    using assms by simp_all
  have d: "data (applyGains (gR, gG, gB) img) = ?out"
    by (simp add: applyGains_def)
  have r: "?out ! (4 * k) = toUint8Clamp (correctedValue (data img ! (4 * k)) gR)"
    using m(1) l(1) by (simp add: applyShadesOfGray_apply_nth channelScale_def)
  have g: "?out ! (4 * k + 1) = toUint8Clamp (correctedValue (data img ! (4 * k + 1)) gG)"
    using m(2) applyShadesOfGray_apply_nth[of 0 "4 * k + 1" "data img" gR gG gB] l(2)
    by (simp add: channelScale_def)
  have b: "?out ! (4 * k + 2) = toUint8Clamp (correctedValue (data img ! (4 * k + 2)) gB)"
    using m(3) applyShadesOfGray_apply_nth[of 0 "4 * k + 2" "data img" gR gG gB] l(3)
    by (simp add: channelScale_def)
  have a: "?out ! (4 * k + 3) = data img ! (4 * k + 3)"
    using m(4) applyShadesOfGray_apply_nth[of 0 "4 * k + 3" "data img" gR gG gB] assms
    by simp
  have cv: "correctedValue v c = min 255 (max 0 (round (double_mul (real (unat v)) c)))" for v c
    by (simp add: correctedValue_def Math_round_def round_def)
  have wh: "width (applyGains gs img) = width img" "height (applyGains gs img) = height img"
    for gs
    by (simp_all add: applyGains_def split: prod.splits)
  show ?thesis
    unfolding d r g b a uint_corrected
    by (simp add: cv length_applyShadesOfGray_apply wh applyShadesOfGray_def)
qed

text \<open>
  One pixel (5, 100, 50, 255) under the gains (0.7, 1.5, 1), the first being the double
  nearest to 0.7: the double product of 5 and that gain is 3.5 (the exact product lies just
  below it), so R becomes 4; G becomes 150.
\<close>

theorem applyGains_pixel_witness:
  "4 * 0 + 3 < length (data \<lparr>width = 1, height = 1, data = [5, 100, 50, 255]\<rparr>) \<and>
   uint (data (applyGains (fl (7 / 10), 3 / 2, 1)
           \<lparr>width = 1, height = 1, data = [5, 100, 50, 255]\<rparr>) ! 0) = 4 \<and>
   uint (data (applyGains (fl (7 / 10), 3 / 2, 1)
           \<lparr>width = 1, height = 1, data = [5, 100, 50, 255]\<rparr>) ! 1) = 150 \<and>
   uint (data (applyGains (fl (7 / 10), 3 / 2, 1)
           \<lparr>width = 1, height = 1, data = [5, 100, 50, 255]\<rparr>) ! (4 * 0 + 2)) = 50 \<and>
   data (applyGains (fl (7 / 10), 3 / 2, 1)
           \<lparr>width = 1, height = 1, data = [5, 100, 50, 255]\<rparr>) ! 3 = 255"
proof -
  have r: "double_mul 5 (fl (7 / 10)) = 7 / 2"
    unfolding double_mul_def fl_7_10
    using fl_eq[of 1 "5 * (6305039478318694 / 2 ^ 53)"] by (simp add: roundHalfEven_def Let_def)
  have g: "double_mul 100 (3 / 2) = 150"
    using fl_of_int[of 150] by (simp add: double_mul_def)
  have b: "double_mul 50 1 = 50"
    using fl_of_int[of 50] by (simp add: double_mul_def)
  show ?thesis
    using applyGains_pixel [of 0 "\<lparr>width = 1, height = 1, data = [5, 100, 50, 255]\<rparr>"
        "fl (7 / 10)" "3 / 2" 1]
    by (simp add: r g b round_def)
qed

section \<open>Properties of the illuminant estimate and the gains\<close>

lemma Math_pow_NORM: "Math_pow x SHADES_OF_GRAY_NORM = x ^ 6"
  by (simp add: Math_pow_def SHADES_OF_GRAY_NORM_def power_int_def)

lemma Math_pow_inverse_NORM:
  assumes "0 \<le> x"
  shows "Math_pow x (1 / SHADES_OF_GRAY_NORM) = root 6 x"
proof -
  have "Math_pow x (1 / 6) = x powr (1 / 6)"
    by (simp add: Math_pow_def)
  also have "\<dots> = root 6 x"
    using root_powr_inverse[of 6 x] assms by simp
  finally show ?thesis
    by (simp add: SHADES_OF_GRAY_NORM_def)
qed

lemma applyShadesOfGray_sums_closed:
  "i = 4 * m \<Longrightarrow> length dat = 4 * n \<Longrightarrow>
   applyShadesOfGray_sums dat i sumR sumG sumB =
     (sumR + (\<Sum>k = m..<n. (real (unat (dat ! (4 * k))) / 255) ^ 6),
      sumG + (\<Sum>k = m..<n. (real (unat (dat ! (4 * k + 1))) / 255) ^ 6),
      sumB + (\<Sum>k = m..<n. (real (unat (dat ! (4 * k + 2))) / 255) ^ 6))"
proof (induction dat i sumR sumG sumB arbitrary: m rule: applyShadesOfGray_sums.induct)
  case (1 dat i sumR sumG sumB)
  show ?case
  proof (cases "i < length dat")
    case True
    then have mn: "m < n"
      using "1.prems" by simp
    have nxt: "i + 4 = 4 * Suc m"
      using "1.prems"(1) by simp
    show ?thesis
      using True "1.IH"[OF True nxt "1.prems"(2)] mn "1.prems"(1)
      by (subst applyShadesOfGray_sums.simps)
         (simp add: Math_pow_NORM sum.atLeast_Suc_lessThan[OF mn] add.assoc)
  next
    case False
    then have "n \<le> m"
      using "1.prems" by simp
    then show ?thesis
      using False by (subst applyShadesOfGray_sums.simps) simp
  qed
qed

lemma sum_channelValues:
  "length dat = 4 * n \<Longrightarrow>
   (\<Sum>x\<leftarrow>channelValues dat c. (x / 255) ^ 6) =
   (\<Sum>k = 0..<n. (real (unat (dat ! (4 * k + c))) / 255) ^ 6)"
  by (simp add: channelValues_def sum_list_map_eq_sum_count interv_sum_list_conv_sum_set_nat comp_def)

lemma length_channelValues: "length dat = 4 * n \<Longrightarrow> length (channelValues dat c) = n"
  by (simp add: channelValues_def)

lemma byte_range: "0 \<le> real (unat (w :: byte)) \<and> real (unat w) \<le> 255"
proof -
  have "unat w < 256"
    using unsigned_less[of w, where ?'a = nat] by simp
  then have "unat w \<le> 255"
    by simp
  then have "real (unat w) \<le> real 255"
    using of_nat_le_iff by blast
  then show ?thesis
    by (simp only: of_nat_numeral of_nat_0_le_iff simp_thms)
qed

lemma channelValues_range:
  "x \<in> set (channelValues dat c) \<Longrightarrow> 0 \<le> x \<and> x \<le> 255"
  using byte_range by (auto simp: channelValues_def)

lemma sum_list_unit_bound:
  fixes xs :: "real list"
  assumes "\<And>x. x \<in> set xs \<Longrightarrow> 0 \<le> x \<and> x \<le> 255"
  shows "0 \<le> (\<Sum>x\<leftarrow>xs. (x / 255) ^ p) \<and> (\<Sum>x\<leftarrow>xs. (x / 255) ^ p) \<le> real (length xs)"
  using assms
proof (induction xs)
  case Nil
  then show ?case by simp
next
  case (Cons a xs)
  have a: "0 \<le> a / 255" "a / 255 \<le> 1"
    using Cons.prems[of a] by simp_all
  have "(a / 255) ^ p \<le> 1"
    using a by (simp add: power_le_one)
  moreover have "0 \<le> (a / 255) ^ p"
    using a by simp
  ultimately show ?case
    using Cons.IH Cons.prems by simp
qed

lemma minkowskiMean_range:
  assumes "\<And>x. x \<in> set xs \<Longrightarrow> 0 \<le> x \<and> x \<le> 255" "0 < p"
  shows "0 \<le> minkowskiMean p xs \<and> minkowskiMean p xs \<le> 1"
proof -
  let ?s = "(\<Sum>x\<leftarrow>xs. (x / 255) ^ p)"
  have s: "0 \<le> ?s" "?s \<le> real (length xs)"
    using sum_list_unit_bound[OF assms(1)] by simp_all
  have q: "0 \<le> ?s / real (length xs)" "?s / real (length xs) \<le> 1"
    using s by (simp_all add: divide_le_eq_1)
  have "root p (?s / real (length xs)) \<le> root p 1"
    using q(2) assms(2) by (simp only: real_root_le_iff)
  then show ?thesis
    using q(1) assms(2) by (simp add: minkowskiMean_def)
qed

lemma illuminantEstimate_closed:
  assumes "length dat = 4 * n"
  shows "illuminantEstimate dat =
           (minkowskiMean 6 (channelValues dat 0),
            minkowskiMean 6 (channelValues dat 1),
            minkowskiMean 6 (channelValues dat 2))"
proof -
  have pix: "real (length dat) / 4 = real n"
    using assms by simp
  have sums: "applyShadesOfGray_sums dat 0 0 0 0 =
      ((\<Sum>x\<leftarrow>channelValues dat 0. (x / 255) ^ 6),
       (\<Sum>x\<leftarrow>channelValues dat 1. (x / 255) ^ 6),
       (\<Sum>x\<leftarrow>channelValues dat 2. (x / 255) ^ 6))"
    using applyShadesOfGray_sums_closed[of 0 0 dat n 0 0 0] assms
    by (simp add: sum_channelValues[OF assms])
  have nn: "0 \<le> (\<Sum>x\<leftarrow>channelValues dat c. (x / 255) ^ 6) / real n" for c
    using sum_list_unit_bound[of "channelValues dat c" 6] channelValues_range[of _ dat c]
    by simp
  show ?thesis
    unfolding illuminantEstimate_def Let_def sums pix
    by (simp add: Math_pow_inverse_NORM[OF nn] minkowskiMean_def
        length_channelValues[OF assms])
qed

text \<open>
  Claim C6. For every non-empty bitmap (\<open>n\<close> pixels, four bytes each), the illuminant
  estimate of \<^verbatim>\<open>applyShadesOfGray\<close> is, channel by channel, the Minkowski mean with exponent
  6 of the channel's values: each value divided by 255 and raised to the 6th power, the
  average over all pixels, and the 6th root of that average. Each of the three values lies
  in [0, 1].
\<close>

theorem illuminantEstimate_minkowski:
  assumes "length dat = 4 * n" "0 < n"
  shows "illuminantEstimate dat =
           (minkowskiMean 6 (channelValues dat 0),
            minkowskiMean 6 (channelValues dat 1),
            minkowskiMean 6 (channelValues dat 2)) \<and>
         minkowskiMean 6 (channelValues dat 0) \<in> {0..1} \<and>
         minkowskiMean 6 (channelValues dat 1) \<in> {0..1} \<and>
         minkowskiMean 6 (channelValues dat 2) \<in> {0..1}"
proof -
  have rng: "minkowskiMean 6 (channelValues dat c) \<in> {0..1}" for c
    using minkowskiMean_range[of "channelValues dat c" 6] channelValues_range[of _ dat c]
    by simp
  show ?thesis
    using illuminantEstimate_closed[OF assms(1)] rng by simp
qed

text \<open>One magenta pixel: the estimate is (1, 0, 1).\<close>

theorem illuminantEstimate_minkowski_witness:
  "length [255, 0, 255, 255 :: byte] = 4 * 1 \<and> (0::nat) < 1 \<and>
   illuminantEstimate [255, 0, 255, 255] = (1, 0, 1)"
  using illuminantEstimate_minkowski [of "[255, 0, 255, 255]" 1]
  by (simp add: channelValues_def minkowskiMean_def)

lemma clamp_range:
  fixes x :: real
  shows "max 0.6 (min 1.5 x) \<in> {0.6..1.5}"
  by simp

lemma clampedScales_components:
  "\<exists>scaleR scaleG scaleB. clampedScales est =
     (max 0.6 (min 1.5 scaleR), max 0.6 (min 1.5 scaleG), max 0.6 (min 1.5 scaleB))"
proof (cases est)
  case (fields avgR avgG avgB)
  show ?thesis
    unfolding fields clampedScales_def Let_def prod.case by blast
qed

text \<open>
  Claim C2. For every bitmap, each of the three clamped scales computed by
  \<^verbatim>\<open>applyShadesOfGray\<close> lies in [0.6, 1.5]; the bound holds for every estimate whatever,
  so also for single-colour and near-black inputs.
\<close>

theorem clampedScales_range:
  "(case clampedScales (illuminantEstimate (data img)) of
      (clampedScaleR, clampedScaleG, clampedScaleB) \<Rightarrow>
        clampedScaleR \<in> {0.6..1.5} \<and> clampedScaleG \<in> {0.6..1.5} \<and>
        clampedScaleB \<in> {0.6..1.5}) \<and>
   (case clampedScales (avgR, avgG, avgB) of
      (clampedScaleR, clampedScaleG, clampedScaleB) \<Rightarrow>
        clampedScaleR \<in> {0.6..1.5} \<and> clampedScaleG \<in> {0.6..1.5} \<and>
        clampedScaleB \<in> {0.6..1.5})"
proof -
  have r: "case clampedScales est of
      (clampedScaleR, clampedScaleG, clampedScaleB) \<Rightarrow>
        clampedScaleR \<in> {0.6..1.5} \<and> clampedScaleG \<in> {0.6..1.5} \<and>
        clampedScaleB \<in> {0.6..1.5}" for est
  proof -
    obtain scaleR scaleG scaleB where
      "clampedScales est =
        (max 0.6 (min 1.5 scaleR), max 0.6 (min 1.5 scaleG), max 0.6 (min 1.5 scaleB))"
      using clampedScales_components by blast
    then show ?thesis
      using clamp_range[of scaleR] clamp_range[of scaleG] clamp_range[of scaleB]
      by (simp only: prod.case)
  qed
  show ?thesis
    by (intro conjI r)
qed


subsection \<open>Two runs of applyShadesOfGray\<close>

text \<open>
  A black pixel: every estimate is 0, below the 0.01 guard, so every scale is 1 and the pixel
  is returned as it is. A saturated red pixel: the red estimate is 1, the gray target 1/3,
  the raw red scale 1/3 is clamped to 0.6, and 255 becomes 153.
\<close>

lemma applyShadesOfGray_black_pixel:
  "clampedScales (illuminantEstimate [0, 0, 0, 255]) = (1, 1, 1) \<and>
   applyShadesOfGray \<lparr>width = 1, height = 1, data = [0, 0, 0, 255]\<rparr> =
     \<lparr>width = 1, height = 1, data = [0, 0, 0, 255]\<rparr>"
proof -
  have e: "illuminantEstimate [0, 0, 0, 255] = (0, 0, 0)"
    using illuminantEstimate_closed [of "[0, 0, 0, 255]" 1]
    by (simp add: channelValues_def minkowskiMean_def)
  have s: "clampedScales (0, 0, 0) = (1, 1, 1)"
    by (simp add: clampedScales_def Let_def)
  have a: "applyShadesOfGray_apply 1 1 1 0 [0, 0, 0, 255] = [0, 0, 0, 255]"
    by (simp add: applyShadesOfGray_apply.simps correctChannel_def correctedValue_def
        double_mul_def fl_0 Math_round_def toUint8Clamp_def)
  show ?thesis
    by (simp add: applyShadesOfGray_def applyGains_def e s a)
qed

lemma applyShadesOfGray_red_pixel:
  "clampedScales (illuminantEstimate [255, 0, 0, 255]) = (0.6, 1, 1) \<and>
   applyShadesOfGray \<lparr>width = 1, height = 1, data = [255, 0, 0, 255]\<rparr> =
     \<lparr>width = 1, height = 1, data = [153, 0, 0, 255]\<rparr>"
proof -
  have e: "illuminantEstimate [255, 0, 0, 255] = (1, 0, 0)"
    using illuminantEstimate_closed [of "[255, 0, 0, 255]" 1]
    by (simp add: channelValues_def minkowskiMean_def)
  have s: "clampedScales (1, 0, 0) = (3 / 5, 1, 1)"
    by (simp add: clampedScales_def Let_def)
  have r: "correctedValue 255 (3 / 5) = 153" "correctedValue 0 1 = 0"
    using fl_of_int[of 153] by (simp_all add: correctedValue_def double_mul_def fl_0 Math_round_def)
  have a: "applyShadesOfGray_apply (3 / 5) 1 1 0 [255, 0, 0, 255] = [153, 0, 0, 255]"
    apply (subst applyShadesOfGray_apply.simps)
    apply (simp add: correctChannel_def r toUint8Clamp_def)
    apply (subst applyShadesOfGray_apply.simps)
    apply simp
    done
  show ?thesis
    by (simp add: applyShadesOfGray_def applyGains_def e s a)
qed

section \<open>Properties of needsColorCorrection\<close>

text \<open>
  The sums of the loop are natural numbers below \<open>2 ^ 53\<close>, so every double addition in it
  is exact.
\<close>

lemma needsColorCorrection_sums_closed:
  "i = 4 * m \<Longrightarrow> length dat = 4 * n \<Longrightarrow> 255 * n < 2 ^ 53 \<Longrightarrow>
   aR \<le> 255 * m \<Longrightarrow> aG \<le> 255 * m \<Longrightarrow> aB \<le> 255 * m \<Longrightarrow>
   needsColorCorrection_sums dat i (real aR) (real aG) (real aB) =
     (real (aR + (\<Sum>k = m..<n. unat (dat ! (4 * k)))),
      real (aG + (\<Sum>k = m..<n. unat (dat ! (4 * k + 1)))),
      real (aB + (\<Sum>k = m..<n. unat (dat ! (4 * k + 2)))))"
proof (induction dat i "real aR" "real aG" "real aB" arbitrary: m aR aG aB
    rule: needsColorCorrection_sums.induct)
  case (1 dat i)
  show ?case
  proof (cases "i < length dat")
    case True
    then have mn: "m < n"
      using "1.prems" by simp
    have nxt: "i + 4 = 4 * Suc m"
      using "1.prems"(1) by simp
    have byte: "unat (w :: byte) \<le> 255" for w
      using unsigned_less[of w, where ?'a = nat] by simp
    have step: "double_add (real a) (real (unat w)) = real (a + unat w) \<and>
        a + unat w \<le> 255 * Suc m" if "a \<le> 255 * m" for a and w :: byte
    proof -
      have le: "a + unat w \<le> 255 * Suc m"
        using that byte[of w] by simp
      also have "255 * Suc m \<le> 255 * n"
        using mn by simp
      finally have "a + unat w < 2 ^ 53"
        using "1.prems"(3) by simp
      then have "fl (real (a + unat w)) = real (a + unat w)"
        by (rule fl_of_nat)
      then show ?thesis
        using le by (simp add: double_add_def)
    qed
    note sR = step[OF "1.prems"(4), of "dat ! i"]
    note sG = step[OF "1.prems"(5), of "dat ! (i + 1)"]
    note sB = step[OF "1.prems"(6), of "dat ! (i + 2)"]
    have "needsColorCorrection_sums dat i (real aR) (real aG) (real aB) =
          needsColorCorrection_sums dat (i + 4) (real (aR + unat (dat ! i)))
            (real (aG + unat (dat ! (i + 1)))) (real (aB + unat (dat ! (i + 2))))"
      using True sR sG sB by (subst needsColorCorrection_sums.simps) simp
    also have "\<dots> =
       (real (aR + unat (dat ! i) + (\<Sum>k = Suc m..<n. unat (dat ! (4 * k)))),
        real (aG + unat (dat ! (i + 1)) + (\<Sum>k = Suc m..<n. unat (dat ! (4 * k + 1)))),
        real (aB + unat (dat ! (i + 2)) + (\<Sum>k = Suc m..<n. unat (dat ! (4 * k + 2)))))"
      using sR sG sB
      by (intro "1.hyps"[OF True _ _ _ nxt "1.prems"(2,3)]) (simp_all add: double_add_def)
    also have "\<dots> =
       (real (aR + (\<Sum>k = m..<n. unat (dat ! (4 * k)))),
        real (aG + (\<Sum>k = m..<n. unat (dat ! (4 * k + 1)))),
        real (aB + (\<Sum>k = m..<n. unat (dat ! (4 * k + 2)))))"
      using "1.prems"(1) by (simp add: sum.atLeast_Suc_lessThan[OF mn] add.assoc)
    finally show ?thesis .
  next
    case False
    then have "n \<le> m"
      using "1.prems" by simp
    then show ?thesis
      using False by (subst needsColorCorrection_sums.simps) simp
  qed
qed


lemma sum_list_channelValues:
  "length dat = 4 * n \<Longrightarrow>
   sum_list (channelValues dat c) = real (\<Sum>k = 0..<n. unat (dat ! (4 * k + c)))"
  by (simp add: channelValues_def interv_sum_list_conv_sum_set_nat)

lemma channelMeans_closed:
  assumes "length dat = 4 * n" "255 * n < 2 ^ 53"
  shows "channelMeans dat =
     (fl (arithmeticMean (channelValues dat 0)), fl (arithmeticMean (channelValues dat 1)),
      fl (arithmeticMean (channelValues dat 2)))"
proof -
  have "n < 2 ^ 53"
    using assms(2) by simp
  then have "fl (real n) = real n"
    by (rule fl_of_nat)
  then have pix: "double_div (real (length dat)) 4 = real n"
    using assms(1) by (simp add: double_div_def)
  have sums: "needsColorCorrection_sums dat 0 0 0 0 =
      (sum_list (channelValues dat 0), sum_list (channelValues dat 1),
       sum_list (channelValues dat 2))"
    using needsColorCorrection_sums_closed[of 0 0 dat n 0 0 0] assms
    by (simp add: sum_list_channelValues[OF assms(1)])
  show ?thesis
    unfolding channelMeans_def Let_def sums pix
    by (simp add: arithmeticMean_def double_div_def length_channelValues[OF assms(1)])
qed

text \<open>The test at the means 200, 100, 100 and at the means 128, 128, 128, in doubles.\<close>

lemma hasColorCast_200_100_100: "hasColorCast (200, 100, 100)"
proof -
  have a: "double_add 200 100 = 300" "double_add 300 100 = 400"
    using fl_of_int[of 300] fl_of_int[of 400] by (simp_all add: double_add_def)
  have ov: "double_div 400 3 = 4691249611844267 / 2 ^ 45"
    unfolding double_div_def
    using fl_eq[of 7 "400 / 3"] by (simp add: roundHalfEven_def Let_def)
  have th: "double_mul (4691249611844267 / 2 ^ 45) (5404319552844595 / 2 ^ 55) \<le> 21"
    unfolding double_mul_def
    using fl_eq[of 4 "(4691249611844267 / 2 ^ 45) * (5404319552844595 / 2 ^ 55)"]
    by (simp add: roundHalfEven_def Let_def)
  have d: "double_sub 200 (4691249611844267 / 2 ^ 45) \<ge> 66"
    unfolding double_sub_def
    using fl_eq[of 6 "200 - 4691249611844267 / 2 ^ 45"]
    by (simp add: roundHalfEven_def Let_def)
  show ?thesis
    unfolding hasColorCast_def prod.case Let_def a ov fl_15_100
    using th d by linarith
qed

lemma hasColorCast_128: "\<not> hasColorCast (128, 128, 128)"
proof -
  have a: "double_add 128 128 = 256" "double_add 256 128 = 384"
    using fl_of_int[of 256] fl_of_int[of 384] by (simp_all add: double_add_def)
  have ov: "double_div 384 3 = 128"
    using fl_of_int[of 128] by (simp add: double_div_def)
  have th: "0 \<le> double_mul 128 (5404319552844595 / 2 ^ 55)"
    unfolding double_mul_def
    using fl_eq[of 4 "128 * (5404319552844595 / 2 ^ 55)"]
    by (simp add: roundHalfEven_def Let_def)
  have d: "double_sub 128 128 = 0"
    by (simp add: double_sub_def fl_0)
  show ?thesis
    unfolding hasColorCast_def prod.case Let_def a ov fl_15_100 d
    using th by simp
qed

lemma channelMeans_uniform:
  assumes "length dat = 4 * n" "0 < n" "255 * n < 2 ^ 53"
    and "\<forall>k<n. dat ! (4 * k) = v \<and> dat ! (4 * k + 1) = v \<and> dat ! (4 * k + 2) = v"
  shows "channelMeans dat = (real (unat v), real (unat v), real (unat v))"
proof -
  have v: "dat ! (4 * k + c) = v" if "k < n" "c < 3" for k c
  proof -
    from that(2) consider "c = 0" | "c = 1" | "c = 2"
      by linarith
    then show ?thesis
      using assms(4) that(1) by cases simp_all
  qed
  have s: "sum_list (channelValues dat c) = real n * real (unat v)" if "c < 3" for c
  proof -
    have "(\<Sum>k = 0..<n. unat (dat ! (4 * k + c))) = (\<Sum>k = 0..<n. unat v)"
      by (rule sum.cong) (simp_all add: v that)
    also have "\<dots> = n * unat v"
      by simp
    finally show ?thesis
      by (simp only: sum_list_channelValues[OF assms(1)] of_nat_mult)
  qed
  have "unat v < 2 ^ 53"
    using unsigned_less[of v, where ?'a = nat] by simp
  then have fv: "fl (real (unat v)) = real (unat v)"
    by (rule fl_of_nat)
  have m: "fl (arithmeticMean (channelValues dat c)) = real (unat v)" if "c < 3" for c
  proof -
    have "arithmeticMean (channelValues dat c) = real (unat v)"
      unfolding arithmeticMean_def s[OF that] length_channelValues[OF assms(1)]
      using assms(2) by simp
    then show ?thesis
      by (simp only: fv)
  qed
  have m0: "fl (arithmeticMean (channelValues dat 0)) = real (unat v)"
    using m[of 0] by simp
  have m1: "fl (arithmeticMean (channelValues dat 1)) = real (unat v)"
    using m[of 1] by simp
  have m2: "fl (arithmeticMean (channelValues dat 2)) = real (unat v)"
    using m[of 2] by simp
  show ?thesis
    unfolding channelMeans_closed[OF assms(1,3)]
    by (simp only: m0 m1 m2)
qed

text \<open>
  Claim C7. On a loaded image whose sample has \<open>n\<close> pixels, \<^verbatim>\<open>needsColorCorrection\<close>
  resolves with true exactly when the arithmetic mean of some channel differs from
  \<open>overallAvg = (avgR + avgG + avgB) / 3\<close> by more than \<open>threshold = 0.15 * overallAvg\<close>, the
  means and every operation being those of double arithmetic, as the source computes them.
  It resolves with true when the means are 200, 100, 100 and with false when every pixel of
  the sample has R = G = B = 128. (The bound on \<open>n\<close> keeps the sums below \<open>2 ^ 53\<close>; the
  sample of the source has 10000 pixels.)
\<close>

theorem needsColorCorrection_cast:
  assumes "length dat = 4 * n" "0 < n" "255 * n < 2 ^ 53"
  shows "needsColorCorrection (ImageLoad dat) =
           Resolved
             (let avgR = fl (arithmeticMean (channelValues dat 0));
                  avgG = fl (arithmeticMean (channelValues dat 1));
                  avgB = fl (arithmeticMean (channelValues dat 2));
                  overallAvg = double_div (double_add (double_add avgR avgG) avgB) 3;
                  threshold = double_mul overallAvg (fl 0.15)
              in \<bar>double_sub avgR overallAvg\<bar> > threshold \<or>
                 \<bar>double_sub avgG overallAvg\<bar> > threshold \<or>
                 \<bar>double_sub avgB overallAvg\<bar> > threshold) \<and>
         (fl (arithmeticMean (channelValues dat 0)) = 200 \<and>
          fl (arithmeticMean (channelValues dat 1)) = 100 \<and>
          fl (arithmeticMean (channelValues dat 2)) = 100 \<longrightarrow>
            needsColorCorrection (ImageLoad dat) = Resolved True) \<and>
         ((\<forall>k<n. dat ! (4 * k) = 128 \<and> dat ! (4 * k + 1) = 128 \<and> dat ! (4 * k + 2) = 128) \<longrightarrow>
            needsColorCorrection (ImageLoad dat) = Resolved False)"
proof (intro conjI impI)
  show "needsColorCorrection (ImageLoad dat) =
           Resolved
             (let avgR = fl (arithmeticMean (channelValues dat 0));
                  avgG = fl (arithmeticMean (channelValues dat 1));
                  avgB = fl (arithmeticMean (channelValues dat 2));
                  overallAvg = double_div (double_add (double_add avgR avgG) avgB) 3;
                  threshold = double_mul overallAvg (fl 0.15)
              in \<bar>double_sub avgR overallAvg\<bar> > threshold \<or>
                 \<bar>double_sub avgG overallAvg\<bar> > threshold \<or>
                 \<bar>double_sub avgB overallAvg\<bar> > threshold)"
    unfolding needsColorCorrection.simps channelMeans_closed[OF assms(1,3)] hasColorCast_def
      prod.case Let_def
    by (simp only:)
next
  assume "fl (arithmeticMean (channelValues dat 0)) = 200 \<and>
          fl (arithmeticMean (channelValues dat 1)) = 100 \<and>
          fl (arithmeticMean (channelValues dat 2)) = 100"
  then have "channelMeans dat = (200, 100, 100)"
    by (simp only: channelMeans_closed[OF assms(1,3)])
  then show "needsColorCorrection (ImageLoad dat) = Resolved True"
    using hasColorCast_200_100_100 by (simp only: needsColorCorrection.simps simp_thms)
next
  assume "\<forall>k<n. dat ! (4 * k) = 128 \<and> dat ! (4 * k + 1) = 128 \<and> dat ! (4 * k + 2) = 128"
  then have "channelMeans dat = (real (unat (128 :: byte)), real (unat (128 :: byte)), real (unat (128 :: byte)))"
    by (rule channelMeans_uniform[OF assms])
  then have "channelMeans dat = (128, 128, 128)"
    by simp
  then show "needsColorCorrection (ImageLoad dat) = Resolved False"
    using hasColorCast_128 by (simp only: needsColorCorrection.simps simp_thms)
qed

text \<open>One pixel (200, 100, 100, 255), and one pixel (128, 128, 128, 255).\<close>

theorem needsColorCorrection_cast_witness:
  "length [200, 100, 100, 255 :: byte] = 4 * 1 \<and> (0::nat) < 1 \<and> (255::nat) * 1 < 2 ^ 53 \<and>
   fl (arithmeticMean (channelValues [200, 100, 100, 255] 0)) = 200 \<and>
   fl (arithmeticMean (channelValues [200, 100, 100, 255] 1)) = 100 \<and>
   fl (arithmeticMean (channelValues [200, 100, 100, 255] 2)) = 100 \<and>
   needsColorCorrection (ImageLoad [200, 100, 100, 255]) = Resolved True \<and>
   length [128, 128, 128, 255 :: byte] = 4 * 1 \<and>
   [128, 128, 128, 255 :: byte] ! (4 * 0) = 128 \<and>
   [128, 128, 128, 255 :: byte] ! (4 * 0 + 1) = 128 \<and>
   [128, 128, 128, 255 :: byte] ! (4 * 0 + 2) = 128 \<and>
   needsColorCorrection (ImageLoad [128, 128, 128, 255]) = Resolved False"
proof -
  have m: "fl (arithmeticMean (channelValues [200, 100, 100, 255] 0)) = 200"
    "fl (arithmeticMean (channelValues [200, 100, 100, 255] 1)) = 100"
    "fl (arithmeticMean (channelValues [200, 100, 100, 255] 2)) = 100"
    using fl_of_int[of 200] fl_of_int[of 100]
    by (simp_all add: channelValues_def arithmeticMean_def)
  have t: "needsColorCorrection (ImageLoad [200, 100, 100, 255]) = Resolved True"
    using needsColorCorrection_cast [of "[200, 100, 100, 255]" 1, THEN conjunct2, THEN conjunct1]
      m by simp
  have f: "needsColorCorrection (ImageLoad [128, 128, 128, 255]) = Resolved False"
    using needsColorCorrection_cast [of "[128, 128, 128, 255]" 1, THEN conjunct2, THEN conjunct2]
    by simp
  show ?thesis
    using m t f by simp
qed

text \<open>
  At the 15 per cent boundary the rounding decides: with the means 2.3, 2 and 1.7 the blue
  mean differs from the overall mean 2 by the double just above 0.3, the threshold is the
  double just below 0.3, and the promise is resolved with true.
\<close>

lemma hasColorCast_boundary: "hasColorCast (fl (23 / 10), 2, fl (17 / 10))"
proof -
  have r: "fl (23 / 10) = 5179139571476070 / 2 ^ 51"
    using fl_eq[of 1 "23 / 10"] by (simp add: roundHalfEven_def Let_def)
  have b: "fl (17 / 10) = 7656119366529843 / 2 ^ 52"
    using fl_eq[of 0 "17 / 10"] by (simp add: roundHalfEven_def Let_def)
  have a1: "double_add (5179139571476070 / 2 ^ 51) 2 = 9682739198846566 / 2 ^ 51"
    unfolding double_add_def
    using fl_eq[of 2 "5179139571476070 / 2 ^ 51 + 2"] by (simp add: roundHalfEven_def Let_def)
  have a2: "double_add (9682739198846566 / 2 ^ 51) (7656119366529843 / 2 ^ 52) = 6"
    unfolding double_add_def
    using fl_eq[of 2 "9682739198846566 / 2 ^ 51 + 7656119366529843 / 2 ^ 52"]
    by (simp add: roundHalfEven_def Let_def)
  have ov: "double_div 6 3 = 2"
    using fl_of_int[of 2] by (simp add: double_div_def)
  have th: "double_mul 2 (5404319552844595 / 2 ^ 55) = 5404319552844595 / 2 ^ 54"
    unfolding double_mul_def
    using fl_eq[of "-2" "2 * (5404319552844595 / 2 ^ 55)"]
    by (simp add: roundHalfEven_def Let_def)
  have d: "double_sub (7656119366529843 / 2 ^ 52) 2 = - (5404319552844596 / 2 ^ 54)"
    unfolding double_sub_def
    using fl_eq[of "-2" "7656119366529843 / 2 ^ 52 - 2"]
    by (simp add: roundHalfEven_def Let_def)
  show ?thesis
    unfolding hasColorCast_def prod.case Let_def r b a1 a2 ov fl_15_100 th d
    by simp
qed

lemma needsColorCorrection_boundarySample:
  "needsColorCorrection (ImageLoad boundarySample) = Resolved True"
proof -
  have l: "length boundarySample = 4 * 10"
    by (simp add: boundarySample_def)
  have u: "[0..<10] = [0, 1, 2, 3, 4, 5, 6, 7, 8, 9 :: nat]"
    by code_simp
  have m: "arithmeticMean (channelValues boundarySample 0) = 23 / 10"
    "arithmeticMean (channelValues boundarySample 1) = 2"
    "arithmeticMean (channelValues boundarySample 2) = 17 / 10"
    by (simp_all add: arithmeticMean_def channelValues_def boundarySample_def u)
  have "fl 2 = 2"
    using fl_of_int[of 2] by simp
  have c: "channelMeans boundarySample =
      (fl (arithmeticMean (channelValues boundarySample 0)),
       fl (arithmeticMean (channelValues boundarySample 1)),
       fl (arithmeticMean (channelValues boundarySample 2)))"
    by (rule channelMeans_closed[OF l]) simp
  have "channelMeans boundarySample = (fl (23 / 10), 2, fl (17 / 10))"
    unfolding c m by (simp only: \<open>fl 2 = 2\<close>)
  then show ?thesis
    using hasColorCast_boundary by (simp only: needsColorCorrection.simps simp_thms)
qed

text \<open>
  Claim C10. \<^verbatim>\<open>needsColorCorrection\<close> never fails: whatever the host does, the promise is
  resolved with a boolean, never rejected and never left unsettled; when the drawing context
  is missing, the file cannot be read or the bytes cannot be decoded, it is resolved with
  false, the same answer as for an image that needs no correction.
\<close>

theorem needsColorCorrection_never_fails:
  "(\<exists>b. needsColorCorrection run = Resolved b) \<and>
   needsColorCorrection run \<noteq> Rejected msg \<and>
   needsColorCorrection run \<noteq> Pending \<and>
   needsColorCorrection ContextNull = Resolved False \<and>
   needsColorCorrection ReaderError = Resolved False \<and>
   needsColorCorrection ImageError = Resolved False \<and>
   needsColorCorrection ImageError = needsColorCorrection (ImageLoad [128, 128, 128, 255])"
proof -
  have "channelMeans [128, 128, 128, 255] = (128, 128, 128)"
    using channelMeans_uniform[of "[128, 128, 128, 255]" 1 128] by simp
  then have "needsColorCorrection (ImageLoad [128, 128, 128, 255]) = Resolved False"
    using hasColorCast_128 by (simp only: needsColorCorrection.simps simp_thms)
  then show ?thesis
    by (cases run) auto
qed

section \<open>Properties of addWatermark\<close>

text \<open>What the keying does to every pixel of an image, and to the example logo.\<close>

lemma makeTransparent_shape:
  "width (makeTransparent img targetColor tolerance) = width img \<and>
   height (makeTransparent img targetColor tolerance) = height img \<and>
   length (data (makeTransparent img targetColor tolerance)) = length (data img)"
  by (simp add: makeTransparent_def length_makeTransparent_loop)

lemma makeTransparent_pixels:
  assumes "4 * k + 3 < length (data img)"
  shows "data (makeTransparent img targetColor tolerance) ! (4 * k) = data img ! (4 * k) \<and>
         data (makeTransparent img targetColor tolerance) ! (4 * k + 1) = data img ! (4 * k + 1) \<and>
         data (makeTransparent img targetColor tolerance) ! (4 * k + 2) = data img ! (4 * k + 2) \<and>
         data (makeTransparent img targetColor tolerance) ! (4 * k + 3) =
           (if colorDist (data img ! (4 * k)) (data img ! (4 * k + 1)) (data img ! (4 * k + 2))
                 targetColor < tolerance
            then 0 else data img ! (4 * k + 3))"
proof -
  have m: "(4 * k) mod 4 = 0" "(4 * k + 1) mod 4 = 1" "(4 * k + 2) mod 4 = 2"
    "(4 * k + 3) mod 4 = 3"
    by (simp_all only: mod_mult_self4 mod_mult_self1_is_0) simp_all
  have l: "4 * k < length (data img)" "4 * k + 1 < length (data img)"
    "4 * k + 2 < length (data img)"
    using assms by simp_all
  show ?thesis
    using m l assms by (simp add: makeTransparent_def makeTransparent_loop_nth keyed_def)
qed

lemma colorDist_logo_key:
  "colorDist r g b (240, 230, 74) =
     sqrt ((real (unat r) - 240)\<^sup>2 + (real (unat g) - 230)\<^sup>2 + (real (unat b) - 74)\<^sup>2)"
  by (simp add: colorDist_def Math_pow_2)

lemma makeTransparent_exampleLogo:
  "makeTransparent exampleLogo (240, 230, 74) 100 =
     \<lparr>width = 2, height = 1, data = [240, 230, 74, 0, 0, 0, 0, 255]\<rparr>"
proof -
  have "sqrt 10000 = 100"
    using real_sqrt_abs[of 100] by simp
  then have far: "\<not> sqrt 115976 < 100"
    using real_sqrt_less_iff[of 115976 10000] by simp
  have "makeTransparent_loop 0 (240, 230, 74) 100 [240, 230, 74, 255, 0, 0, 0, 255] =
        [240, 230, 74, 0, 0, 0, 0, 255]"
    apply (subst makeTransparent_loop.simps)
    apply (simp add: colorDist_logo_key)
    apply (subst makeTransparent_loop.simps)
    apply (simp add: colorDist_logo_key far)
    apply (subst makeTransparent_loop.simps)
    apply simp
    done
  then show ?thesis
    by (simp add: makeTransparent_def exampleLogo_def)
qed

text \<open>
  Claim C8. When the logo loads, \<^verbatim>\<open>addWatermark\<close> resolves with a canvas of exactly the main
  image's width and height, on which the main image was drawn at (0, 0) and then the keyed
  logo was drawn with global alpha 0.8 at \<open>x = main.width - logoW - padding\<close>,
  \<open>y = main.height - logoH - padding\<close> with size \<open>logoW = logo.width * scale\<close>,
  \<open>logoH = logo.height * scale\<close>, where \<open>scale = (main.width * 0.15) / logo.width\<close> and
  \<open>padding = main.width * 0.03\<close>; the drawn size keeps the logo's aspect ratio. The keyed logo
  has the logo's size; each of its pixels has the logo's R, G and B, and alpha 0 when the
  pixel is closer than 100 to the colour (240, 230, 74), the logo's alpha otherwise.
\<close>

theorem addWatermark_logo:
  assumes "0 < width logoImg" "0 < height logoImg"
  shows "let scale = (real (width mainImg) * 0.15) / real (width logoImg);
             logoW = real (width logoImg) * scale;
             logoH = real (height logoImg) * scale;
             padding = real (width mainImg) * 0.03;
             x = real (width mainImg) - logoW - padding;
             y = real (height mainImg) - logoH - padding;
             keyedLogo = makeTransparent logoImg (240, 230, 74) 100
         in (\<exists>canvas. addWatermark (LogoLoad mainImg logoImg) watermarkText = Resolved canvas \<and>
               canvasWidth canvas = width mainImg \<and>
               canvasHeight canvas = height mainImg \<and>
               drawn canvas =
                 [DrawImage mainImg 0 0 1,
                  DrawImageScaled keyedLogo x y logoW logoH 0.8]) \<and>
            width keyedLogo = width logoImg \<and>
            height keyedLogo = height logoImg \<and>
            length (data keyedLogo) = length (data logoImg) \<and>
            (\<forall>k. 4 * k + 3 < length (data logoImg) \<longrightarrow>
               data keyedLogo ! (4 * k) = data logoImg ! (4 * k) \<and>
               data keyedLogo ! (4 * k + 1) = data logoImg ! (4 * k + 1) \<and>
               data keyedLogo ! (4 * k + 2) = data logoImg ! (4 * k + 2) \<and>
               data keyedLogo ! (4 * k + 3) =
                 (if sqrt ((real (unat (data logoImg ! (4 * k))) - 240)\<^sup>2 +
                           (real (unat (data logoImg ! (4 * k + 1))) - 230)\<^sup>2 +
                           (real (unat (data logoImg ! (4 * k + 2))) - 74)\<^sup>2) < 100
                  then 0 else data logoImg ! (4 * k + 3))) \<and>
            logoW * real (height logoImg) = logoH * real (width logoImg)"
proof -
  let ?keyed = "makeTransparent logoImg (240, 230, 74) 100"
  have run: "\<exists>canvas. addWatermark (LogoLoad mainImg logoImg) watermarkText = Resolved canvas \<and>
      canvasWidth canvas = width mainImg \<and>
      canvasHeight canvas = height mainImg \<and>
      drawn canvas =
        [DrawImage mainImg 0 0 1,
         DrawImageScaled ?keyed
           (real (width mainImg) -
              real (width logoImg) * ((real (width mainImg) * 0.15) / real (width logoImg)) -
              real (width mainImg) * 0.03)
           (real (height mainImg) -
              real (height logoImg) * ((real (width mainImg) * 0.15) / real (width logoImg)) -
              real (width mainImg) * 0.03)
           (real (width logoImg) * ((real (width mainImg) * 0.15) / real (width logoImg)))
           (real (height logoImg) * ((real (width mainImg) * 0.15) / real (width logoImg)))
           0.8]"
    using assms
    by (simp add: Let_def logoOnload_def drawImageScaled_def drawImage_def newCanvas_def)
  have pix: "\<forall>k. 4 * k + 3 < length (data logoImg) \<longrightarrow>
      data ?keyed ! (4 * k) = data logoImg ! (4 * k) \<and>
      data ?keyed ! (4 * k + 1) = data logoImg ! (4 * k + 1) \<and>
      data ?keyed ! (4 * k + 2) = data logoImg ! (4 * k + 2) \<and>
      data ?keyed ! (4 * k + 3) =
        (if sqrt ((real (unat (data logoImg ! (4 * k))) - 240)\<^sup>2 +
                  (real (unat (data logoImg ! (4 * k + 1))) - 230)\<^sup>2 +
                  (real (unat (data logoImg ! (4 * k + 2))) - 74)\<^sup>2) < 100
         then 0 else data logoImg ! (4 * k + 3))"
    using makeTransparent_pixels[of _ logoImg "(240, 230, 74)" 100]
    by (simp only: colorDist_logo_key) blast
  have ratio: "real (width logoImg) * ((real (width mainImg) * 0.15) / real (width logoImg)) *
        real (height logoImg) =
      real (height logoImg) * ((real (width mainImg) * 0.15) / real (width logoImg)) *
        real (width logoImg)"
    by simp
  show ?thesis
    unfolding Let_def
    using run pix ratio makeTransparent_shape[of logoImg "(240, 230, 74)" 100]
    by (intro conjI) (simp_all only:)
qed

text \<open>
  The two by one logo on the two by two photograph: its first pixel, of the key colour,
  becomes transparent, the black one stays; the logo is drawn 0.3 wide and 0.15 high at
  (1.64, 1.79).
\<close>

theorem addWatermark_logo_witness:
  "0 < width exampleLogo \<and> 0 < height exampleLogo \<and>
   4 * 0 + 3 < length (data exampleLogo) \<and> 4 * 1 + 3 < length (data exampleLogo) \<and>
   (\<exists>canvas. addWatermark (LogoLoad exampleMain exampleLogo) ''Saket'' = Resolved canvas \<and>
      canvasWidth canvas = 2 \<and> canvasHeight canvas = 2 \<and>
      drawn canvas =
        [DrawImage exampleMain 0 0 1,
         DrawImageScaled \<lparr>width = 2, height = 1, data = [240, 230, 74, 0, 0, 0, 0, 255]\<rparr>
           (164 / 100) (179 / 100) (3 / 10) (15 / 100) (8 / 10)]) \<and>
   data (makeTransparent exampleLogo (240, 230, 74) 100) ! (4 * 0 + 3) = 0 \<and>
   data (makeTransparent exampleLogo (240, 230, 74) 100) ! (4 * 1 + 3) = 255"
proof -
  have w: "width exampleLogo = 2" "height exampleLogo = 1"
    "width exampleMain = 2" "height exampleMain = 2"
    by (simp_all add: exampleLogo_def exampleMain_def)
  have l: "length (data exampleLogo) = 8"
    by (simp add: exampleLogo_def)
  note t = addWatermark_logo [of exampleLogo exampleMain "''Saket''", unfolded Let_def]
  have c: "\<exists>canvas. addWatermark (LogoLoad exampleMain exampleLogo) ''Saket'' = Resolved canvas \<and>
      canvasWidth canvas = 2 \<and> canvasHeight canvas = 2 \<and>
      drawn canvas =
        [DrawImage exampleMain 0 0 1,
         DrawImageScaled \<lparr>width = 2, height = 1, data = [240, 230, 74, 0, 0, 0, 0, 255]\<rparr>
           (164 / 100) (179 / 100) (3 / 10) (15 / 100) (8 / 10)]"
    using t[THEN conjunct1] unfolding w makeTransparent_exampleLogo by simp
  have "sqrt 10000 = 100"
    using real_sqrt_abs[of 100] by simp
  then have far: "\<not> sqrt 115976 < 100"
    using real_sqrt_less_iff[of 115976 10000] by simp
  note p = t[THEN conjunct2, THEN conjunct2, THEN conjunct2, THEN conjunct2, THEN conjunct1,
      rule_format]
  have a0: "data (makeTransparent exampleLogo (240, 230, 74) 100) ! (4 * 0 + 3) = 0"
    using p[of 0] by (simp add: exampleLogo_def)
  have a1: "data (makeTransparent exampleLogo (240, 230, 74) 100) ! (4 * 1 + 3) = 255"
    using p[of 1] far by (simp add: exampleLogo_def)
  show ?thesis
    using c a0 a1 by (simp add: w l)
qed

text \<open>
  Claim C9. When the main image decodes and the logo fails to load, \<^verbatim>\<open>addWatermark\<close> does not
  fail: it resolves with the canvas on which, after the main image, the watermark text was
  filled in italic serif of size \<open>max(16, floor(main.width * 0.05))\<close> pixels, right-aligned
  on a bottom baseline at \<open>(width - fontSize, height - fontSize)\<close>, with a fill colour of
  alpha 0.7.
\<close>

theorem addWatermark_text_fallback:
  "let fontSize = max 16 \<lfloor>real (width mainImg) * 0.05\<rfloor>;
       textFont = \<lparr>fontStyle = ''italic'', fontSizePx = fontSize,
                   fontFamilies = [''Playfair Display'', ''serif'']\<rparr>
   in (\<exists>canvas. addWatermark (LogoError mainImg) watermarkText = Resolved canvas \<and>
         canvasWidth canvas = width mainImg \<and>
         canvasHeight canvas = height mainImg \<and>
         drawn canvas =
           [DrawImage mainImg 0 0 1,
            FillText watermarkText
              (real (width mainImg) - real_of_int fontSize)
              (real (height mainImg) - real_of_int fontSize)
              textFont (255, 69, 0, 0.7) ''right'' ''bottom'']) \<and>
      addWatermark (LogoError mainImg) watermarkText \<noteq> Rejected msg \<and>
      addWatermark (LogoError mainImg) watermarkText \<noteq> Pending"
  by (simp add: Let_def logoOnerror_def fillText_def drawImage_def newCanvas_def)

end
